theory Spec2Isabelle
  imports Main
begin

section \<open>Durations and the package constants\<close>

text \<open>
  Go's \<^verbatim>\<open>time.Duration\<close> is a signed 64-bit count of nanoseconds. The only arithmetic
  the package does on durations is \<^verbatim>\<open>time.Second * 10\<close>, \<^verbatim>\<open>* 3\<close> and \<^verbatim>\<open>* 1\<close>, all far
  below \<open>2 ^ 63\<close>, so durations and instants are plain integers here.
\<close>

type_synonym duration = int
type_synonym instant = int

definition Second :: duration where
  "Second = 1000000000"

definition pingTimeout :: duration where
  "pingTimeout = Second * 3"

definition lockTTL :: duration where
  "lockTTL = Second * 10"

definition redisExecuteTimeout :: duration where
  "redisExecuteTimeout = Second * 3"

definition renewalCheckInterval :: duration where
  "renewalCheckInterval = Second * 1"


section \<open>The store\<close>

text \<open>
  The key-value store is reached through the go-redis client, which is not part of the
  package. Its three commands are modelled from the Store Adapter contract of the
  specification (section 4.1): conditional create with expiry, refresh of the expiry,
  delete.

  A command can fail in transit. \<open>RequestLost\<close> is a failure before the store saw the
  command (refused connection, deadline already over); \<open>ReplyLost\<close> is a failure after
  the store executed it (the answer never arrived). In both cases the client returns
  the zero value together with a non-nil error.
\<close>

type_synonym key = string

record entry =
  holder :: string
  ttl :: duration

type_synonym store = "key \<rightharpoonup> entry"

datatype error = StoreError

datatype fault = NoFault | RequestLost | ReplyLost

text \<open>Modelled from the spec: \<^verbatim>\<open>AcquireIfAbsent(key, value, ttl)\<close>, the store's SETNX.\<close>

definition SetNX :: "fault \<Rightarrow> key \<Rightarrow> string \<Rightarrow> duration \<Rightarrow> store \<Rightarrow> (bool \<times> error option) \<times> store" where
  "SetNX f k v d s =
     (let created = (s k = None);
          s' = (if created then s(k \<mapsto> \<lparr>holder = v, ttl = d\<rparr>) else s)
      in case f of
           NoFault \<Rightarrow> ((created, None), s')
         | RequestLost \<Rightarrow> ((False, Some StoreError), s)
         | ReplyLost \<Rightarrow> ((False, Some StoreError), s'))"

text \<open>Modelled from the spec: \<^verbatim>\<open>RefreshExpiry(key, ttl)\<close>, the store's EXPIRE.\<close>

definition Expire :: "fault \<Rightarrow> key \<Rightarrow> duration \<Rightarrow> store \<Rightarrow> (bool \<times> error option) \<times> store" where
  "Expire f k d s =
     (let found = (s k \<noteq> None);
          s' = (case s k of None \<Rightarrow> s | Some e \<Rightarrow> s(k \<mapsto> e\<lparr>ttl := d\<rparr>))
      in case f of
           NoFault \<Rightarrow> ((found, None), s')
         | RequestLost \<Rightarrow> ((False, Some StoreError), s)
         | ReplyLost \<Rightarrow> ((False, Some StoreError), s'))"

text \<open>Modelled from the spec: \<^verbatim>\<open>Delete(key)\<close>, the store's DEL; the count is 0 or 1.\<close>

definition Del :: "fault \<Rightarrow> key \<Rightarrow> store \<Rightarrow> (int \<times> error option) \<times> store" where
  "Del f k s =
     (let cnt = (if s k = None then 0 else 1);
          s' = s(k := None)
      in case f of
           NoFault \<Rightarrow> ((cnt, None), s')
         | RequestLost \<Rightarrow> ((0, Some StoreError), s)
         | ReplyLost \<Rightarrow> ((0, Some StoreError), s'))"

text \<open>Modelled from the spec: the liveness probe sent once when a provider is configured.\<close>

definition Ping :: "fault \<Rightarrow> error option" where
  "Ping f = (case f of NoFault \<Rightarrow> None | RequestLost \<Rightarrow> Some StoreError | ReplyLost \<Rightarrow> Some StoreError)"


section \<open>The process state\<close>

text \<open>
  \<^verbatim>\<open>redisDriver\<close> holds two client pointers; a nil pointer is \<open>None\<close>, a connected client
  is \<open>Some\<close> of the contents of the store behind it.
\<close>

record redisDriver =
  client :: "store option"
  clusterClient :: "store option"

text \<open>
  A channel is named by a number; \<^verbatim>\<open>make(chan struct{})\<close> takes the next unused one.
  \<^verbatim>\<open>stateListeners\<close> is the registry of cancellation channels. Its mutex gives each
  access atomicity, which a sequential model has by construction.
\<close>

type_synonym chan = nat

record stateListeners =
  listeners :: "key \<rightharpoonup> chan"

text \<open>A context is modelled by what the package reads from it: its deadline, if any.\<close>

type_synonym ctx = "instant option"

datatype goroutine = Renewal key chan | Cleanup key

datatype target = Standalone | Cluster

datatype command = PING | SETNX key string duration | EXPIRE key duration | DEL key

record call =
  via :: target
  cmd :: command
  deadline :: "instant option"

text \<open>
  The package-level variables \<^verbatim>\<open>lockDriver\<close>, \<^verbatim>\<open>states\<close> and \<^verbatim>\<open>doOnce\<close>, together with
  what the runtime and the surroundings contribute: the goroutines started so far, the
  channels made and signalled, the store calls issued (oldest first), the fate of the
  store calls to come (an empty list: every call goes through), the clock, and the host
  identity read by \<^verbatim>\<open>lockerValue\<close>.
\<close>

record world =
  lockDriver :: redisDriver
  states :: stateListeners
  doOnce :: bool
  goroutines :: "goroutine list"
  chans :: nat
  signalled :: "chan list"
  calls :: "call list"
  faults :: "fault list"
  now :: instant
  wallclock :: string
  hostname :: string
  localIP :: string

definition Background :: ctx where
  "Background = None"

definition WithTimeout :: "world \<Rightarrow> ctx \<Rightarrow> duration \<Rightarrow> ctx" where
  "WithTimeout w parent d =
     (case parent of
        None \<Rightarrow> Some (now w + d)
      | Some t \<Rightarrow> Some (min t (now w + d)))"

text \<open>
  One round trip to the store behind handle \<open>t\<close>: the call is logged with the deadline
  of its context, the next fault (if any) is consumed, and the handle's store is
  replaced by what the command left.
\<close>

definition put :: "target \<Rightarrow> store \<Rightarrow> world \<Rightarrow> world" where
  "put t s w =
     (case t of
        Standalone \<Rightarrow> w\<lparr>lockDriver := (lockDriver w)\<lparr>client := Some s\<rparr>\<rparr>
      | Cluster \<Rightarrow> w\<lparr>lockDriver := (lockDriver w)\<lparr>clusterClient := Some s\<rparr>\<rparr>)"

definition next_fault :: "world \<Rightarrow> fault" where
  "next_fault w = (case faults w of [] \<Rightarrow> NoFault | f # _ \<Rightarrow> f)"

definition logged :: "target \<Rightarrow> command \<Rightarrow> ctx \<Rightarrow> world \<Rightarrow> world" where
  "logged t c cx w =
     w\<lparr>calls := calls w @ [\<lparr>via = t, cmd = c, deadline = cx\<rparr>], faults := tl (faults w)\<rparr>"

definition issue ::
  "target \<Rightarrow> command \<Rightarrow> ctx \<Rightarrow> (fault \<Rightarrow> store \<Rightarrow> 'r \<times> store) \<Rightarrow> store \<Rightarrow> world \<Rightarrow> 'r \<times> world" where
  "issue t c cx run s w =
     (let (r, s') = run (next_fault w) s
      in (r, put t s' (logged t c cx w)))"


section \<open>Configuration\<close>

datatype outcome = Returns world | Panics world

fun world_of :: "outcome \<Rightarrow> world" where
  "world_of (Returns w) = w"
| "world_of (Panics w) = w"

text \<open>
  \<^verbatim>\<open>sync.Once.Do\<close>: the function runs only on the first call, and the first call counts
  as done even when the function panics.
\<close>

definition Do :: "(world \<Rightarrow> outcome) \<Rightarrow> world \<Rightarrow> outcome" where
  "Do f w = (if doOnce w then Returns w else f (w\<lparr>doOnce := True\<rparr>))"

definition ping :: "target \<Rightarrow> world \<Rightarrow> error option \<times> world" where
  "ping t w =
     (let cx = WithTimeout w Background pingTimeout
      in (Ping (next_fault w), logged t PING cx w))"

definition initClient :: "store \<Rightarrow> world \<Rightarrow> outcome" where
  "initClient rdb w =
     (let (err, w1) = ping Standalone w
      in if err \<noteq> None then Panics w1
         else Returns (w1\<lparr>lockDriver := (lockDriver w1)\<lparr>client := Some rdb\<rparr>\<rparr>))"

definition initClusterClient :: "store \<Rightarrow> world \<Rightarrow> outcome" where
  "initClusterClient rdb w =
     (let (err, w1) = ping Cluster w
      in if err \<noteq> None then Panics w1
         else Returns (w1\<lparr>lockDriver := (lockDriver w1)\<lparr>clusterClient := Some rdb\<rparr>\<rparr>))"

definition initFailOverClient :: "store \<Rightarrow> world \<Rightarrow> outcome" where
  "initFailOverClient rdb w =
     (let (err, w1) = ping Standalone w
      in if err \<noteq> None then Panics w1
         else Returns (w1\<lparr>lockDriver := (lockDriver w1)\<lparr>client := Some rdb\<rparr>\<rparr>))"

definition SetRedisProviderStandalone :: "store \<Rightarrow> world \<Rightarrow> outcome" where
  "SetRedisProviderStandalone opt w = Do (initClient opt) w"

definition SetRedisProviderCluster :: "store \<Rightarrow> world \<Rightarrow> outcome" where
  "SetRedisProviderCluster opt w = Do (initClusterClient opt) w"

definition SetRedisProviderFailOver :: "store \<Rightarrow> world \<Rightarrow> outcome" where
  "SetRedisProviderFailOver opt w = Do (initFailOverClient opt) w"


section \<open>Acquire, renew, release\<close>

text \<open>
  \<^verbatim>\<open>lockerValue\<close>: the holder marker. The errors of \<^verbatim>\<open>os.Hostname\<close> and \<^verbatim>\<open>GetLocalIP\<close>
  are dropped by the source; \<^verbatim>\<open>GetLocalIP\<close> lives in another file of the package and
  its result is taken from the surroundings, as is the formatted time.
\<close>

definition lockerValue :: "world \<Rightarrow> string" where
  "lockerValue w = ''lockedAt:'' @ wallclock w @ ''@'' @ hostname w @ ''('' @ localIP w @ '')''"

text \<open>
  The block at the head of \<^verbatim>\<open>TryLock\<close> and \<^verbatim>\<open>Unlock\<close>: a context without a deadline
  is wrapped in the default timeout.
\<close>

definition bounded :: "world \<Rightarrow> ctx \<Rightarrow> ctx" where
  "bounded w cx = (if cx = None then WithTimeout w cx redisExecuteTimeout else cx)"

definition register :: "key \<Rightarrow> chan \<Rightarrow> world \<Rightarrow> world" where
  "register k ch w = w\<lparr>states := (states w)\<lparr>listeners := (listeners (states w))(k \<mapsto> ch)\<rparr>\<rparr>"

text \<open>
  The success branch of \<^verbatim>\<open>TryLock\<close>: make the cancellation channel, start the renewal
  goroutine on it, and record the channel in the registry under the key (replacing
  whatever the registry held for the key).
\<close>

definition spawn_renewal :: "key \<Rightarrow> world \<Rightarrow> world" where
  "spawn_renewal k w =
     (let cancelChan = chans w;
          w1 = w\<lparr>chans := Suc cancelChan, goroutines := goroutines w @ [Renewal k cancelChan]\<rparr>
      in register k cancelChan w1)"

definition TryLock :: "world \<Rightarrow> ctx \<Rightarrow> key \<Rightarrow> bool \<times> world" where
  "TryLock w cx k =
     (if client (lockDriver w) = None \<and> clusterClient (lockDriver w) = None then (False, w)
      else
        let cx1 = bounded w cx;
            (r1, w1) =
              (case client (lockDriver w) of
                 None \<Rightarrow> ((False, None), w)
               | Some s \<Rightarrow>
                   issue Standalone (SETNX k (lockerValue w) lockTTL) cx1
                     (\<lambda>f. SetNX f k (lockerValue w) lockTTL) s w);
            (r2, w2) =
              (case clusterClient (lockDriver w1) of
                 None \<Rightarrow> (r1, w1)
               | Some s \<Rightarrow>
                   issue Cluster (SETNX k (lockerValue w1) lockTTL) cx1
                     (\<lambda>f. SetNX f k (lockerValue w1) lockTTL) s w1);
            (ok, err) = r2
        in if err \<noteq> None then (False, w2)
           else if ok then (ok, spawn_renewal k w2)
           else (ok, w2))"

text \<open>
  One pass through the \<^verbatim>\<open>ticker.C\<close> case of the renewal goroutine; the first component
  says whether the pass ended in \<^verbatim>\<open>break LOOP\<close>.
\<close>

definition renewal_tick :: "world \<Rightarrow> key \<Rightarrow> bool \<times> world" where
  "renewal_tick w k =
     (let innerCtx = Background;
          (brk, w1) =
            (case client (lockDriver w) of
               None \<Rightarrow> (False, w)
             | Some s \<Rightarrow>
                 (let ((redisOK, redisErr), w') =
                        issue Standalone (EXPIRE k lockTTL) innerCtx (\<lambda>f. Expire f k lockTTL) s w
                  in (\<not> redisOK \<or> redisErr \<noteq> None, w')))
      in if brk then (True, w1)
         else
           (case clusterClient (lockDriver w1) of
              None \<Rightarrow> (False, w1)
            | Some s \<Rightarrow>
                (let ((redisOK, redisErr), w') =
                       issue Cluster (EXPIRE k lockTTL) innerCtx (\<lambda>f. Expire f k lockTTL) s w1
                 in (\<not> redisOK \<or> redisErr \<noteq> None, w'))))"

text \<open>
  The renewal goroutine. What \<^verbatim>\<open>select\<close> delivers is decided by the runtime, so the loop
  is run against the sequence of deliveries: the ticker firing or the cancellation
  channel yielding a value. When the sequence is used up the goroutine is still
  blocked in \<^verbatim>\<open>select\<close>.
\<close>

datatype delivery = TickerC | CancelChan

datatype progress = Blocked | Exited

fun renewal_loop :: "world \<Rightarrow> key \<Rightarrow> delivery list \<Rightarrow> progress \<times> world" where
  "renewal_loop w k [] = (Blocked, w)"
| "renewal_loop w k (CancelChan # ds) = (Exited, w)"
| "renewal_loop w k (TickerC # ds) =
     (case renewal_tick w k of
        (True, w') \<Rightarrow> (Exited, w')
      | (False, w') \<Rightarrow> renewal_loop w' k ds)"

text \<open>
  The body of the goroutine at the end of \<^verbatim>\<open>Unlock\<close>: take the channel out of the
  registry and signal it.
\<close>

definition cleanup :: "world \<Rightarrow> key \<Rightarrow> world" where
  "cleanup w k =
     (case listeners (states w) k of
        None \<Rightarrow> w
      | Some ch \<Rightarrow>
          w\<lparr>states := (states w)\<lparr>listeners := (listeners (states w))(k := None)\<rparr>,
            signalled := signalled w @ [ch]\<rparr>)"

definition Unlock :: "world \<Rightarrow> ctx \<Rightarrow> key \<Rightarrow> bool \<times> world" where
  "Unlock w cx k =
     (if client (lockDriver w) = None \<and> clusterClient (lockDriver w) = None then (False, w)
      else
        let cx1 = bounded w cx
        in case client (lockDriver w) of
             Some s \<Rightarrow>
               (let ((cnt, err), w1) = issue Standalone (DEL k) cx1 (\<lambda>f. Del f k) s w
                in (cnt > 0 \<and> err = None, w1))
           | None \<Rightarrow>
               (case clusterClient (lockDriver w) of
                  Some s \<Rightarrow>
                    (let ((cnt, err), w1) = issue Cluster (DEL k) cx1 (\<lambda>f. Del f k) s w
                     in (cnt > 0 \<and> err = None, w1))
                | None \<Rightarrow> (False, w\<lparr>goroutines := goroutines w @ [Cleanup k]\<rparr>)))"



section \<open>Vocabulary of the properties\<close>

text \<open>
  The three \<^verbatim>\<open>SetRedisProvider\<close> functions share one \<^verbatim>\<open>sync.Once\<close>, so a process has at
  most one of the two handles set (lemma \<open>provider_single_store\<close> below); \<open>the_store\<close>
  is then the store of the process, and \<open>handle\<close> the pointer it is reached through.
\<close>

definition single_store :: "world \<Rightarrow> bool" where
  "single_store w = (client (lockDriver w) = None \<or> clusterClient (lockDriver w) = None)"

definition the_store :: "world \<Rightarrow> store option" where
  "the_store w =
     (case client (lockDriver w) of
        Some s \<Rightarrow> Some s
      | None \<Rightarrow> clusterClient (lockDriver w))"

definition handle :: "world \<Rightarrow> target" where
  "handle w = (if client (lockDriver w) = None then Cluster else Standalone)"

text \<open>The package state when the process starts, on some host at some time.\<close>

definition boot :: world where
  "boot =
     \<lparr>lockDriver = \<lparr>client = None, clusterClient = None\<rparr>,
      states = \<lparr>listeners = Map.empty\<rparr>, doOnce = False, goroutines = [], chans = 0,
      signalled = [], calls = [], faults = [], now = 0, wallclock = ''2024-01-01T00:00:00Z'',
      hostname = ''node1'', localIP = ''10.0.0.1''\<rparr>"

text \<open>The same process after it was pointed at an empty single-node store.\<close>

definition standalone :: world where
  "standalone = world_of (SetRedisProviderStandalone Map.empty boot)"

text \<open>... and after it acquired the lock \<open>''job''\<close>.\<close>

definition held :: world where
  "held = snd (TryLock standalone None ''job'')"

text \<open>... and after it released the lock again.\<close>

definition released :: world where
  "released = snd (Unlock held None ''job'')"

text \<open>The store calls issued between an earlier state and a later one.\<close>

definition new_calls :: "world \<Rightarrow> world \<Rightarrow> call list" where
  "new_calls w w' = drop (length (calls w)) (calls w')"

text \<open>
  Two handles agree on which keys exist: both nil, or both set with stores of the same
  domain. The holder markers and expiries stored under the keys may differ.
\<close>

definition same_keys :: "store option \<Rightarrow> store option \<Rightarrow> bool" where
  "same_keys a b =
     (case a of
        None \<Rightarrow> b = None
      | Some s \<Rightarrow> (case b of None \<Rightarrow> False | Some t \<Rightarrow> dom s = dom t))"

text \<open>
  What the configuration functions establish and every operation keeps: at most one
  handle is set, and a handle is only ever set once \<^verbatim>\<open>doOnce\<close> is done.
\<close>

definition provider_inv :: "world \<Rightarrow> bool" where
  "provider_inv w = (single_store w \<and> (doOnce w \<or> the_store w = None))"

text \<open>
  The configured process facing a store in which a record for \<open>''job''\<close> already exists,
  written by a process on another host: this process never acquired the lock.
\<close>

definition foreign :: world where
  "foreign =
     put Standalone
       (Map.empty(''job'' \<mapsto>
          \<lparr>holder = ''lockedAt:2023-12-31T23:59:59Z@node2(10.0.0.2)'', ttl = lockTTL\<rparr>))
       standalone"


section \<open>Basic facts\<close>

lemma issue_eq:
  "issue t c cx run s w =
     (fst (run (next_fault w) s), put t (snd (run (next_fault w) s)) (logged t c cx w))"
  by (simp add: issue_def split_beta)

lemma put_fields [simp]:
  "states (put t s w) = states w" "doOnce (put t s w) = doOnce w"
  "goroutines (put t s w) = goroutines w" "chans (put t s w) = chans w"
  "signalled (put t s w) = signalled w" "calls (put t s w) = calls w"
  "faults (put t s w) = faults w" "now (put t s w) = now w"
  "wallclock (put t s w) = wallclock w" "hostname (put t s w) = hostname w"
  "localIP (put t s w) = localIP w"
  by (cases t; simp add: put_def)+

lemma put_driver [simp]:
  "client (lockDriver (put Standalone s w)) = Some s"
  "clusterClient (lockDriver (put Standalone s w)) = clusterClient (lockDriver w)"
  "client (lockDriver (put Cluster s w)) = client (lockDriver w)"
  "clusterClient (lockDriver (put Cluster s w)) = Some s"
  by (simp_all add: put_def)

lemma logged_fields [simp]:
  "lockDriver (logged t c cx w) = lockDriver w"
  "states (logged t c cx w) = states w" "doOnce (logged t c cx w) = doOnce w"
  "goroutines (logged t c cx w) = goroutines w" "chans (logged t c cx w) = chans w"
  "signalled (logged t c cx w) = signalled w"
  "calls (logged t c cx w) = calls w @ [\<lparr>via = t, cmd = c, deadline = cx\<rparr>]"
  "faults (logged t c cx w) = tl (faults w)" "now (logged t c cx w) = now w"
  "wallclock (logged t c cx w) = wallclock w" "hostname (logged t c cx w) = hostname w"
  "localIP (logged t c cx w) = localIP w"
  by (simp_all add: logged_def)

lemma register_fields [simp]:
  "lockDriver (register k ch w) = lockDriver w"
  "listeners (states (register k ch w)) = (listeners (states w))(k \<mapsto> ch)"
  "goroutines (register k ch w) = goroutines w" "chans (register k ch w) = chans w"
  "calls (register k ch w) = calls w" "faults (register k ch w) = faults w"
  "signalled (register k ch w) = signalled w" "now (register k ch w) = now w"
  by (simp_all add: register_def)

lemma spawn_fields [simp]:
  "lockDriver (spawn_renewal k w) = lockDriver w"
  "listeners (states (spawn_renewal k w)) = (listeners (states w))(k \<mapsto> chans w)"
  "goroutines (spawn_renewal k w) = goroutines w @ [Renewal k (chans w)]"
  "chans (spawn_renewal k w) = Suc (chans w)"
  "faults (spawn_renewal k w) = faults w"
  "calls (spawn_renewal k w) = calls w"
  "signalled (spawn_renewal k w) = signalled w"
  "now (spawn_renewal k w) = now w"
  by (simp_all add: spawn_renewal_def Let_def)

lemma the_store_spawn [simp]: "the_store (spawn_renewal k w) = the_store w"
  by (simp add: the_store_def split: option.splits)

lemma single_store_spawn [simp]: "single_store (spawn_renewal k w) = single_store w"
  by (simp add: single_store_def)

lemma next_fault_spawn [simp]: "next_fault (spawn_renewal k w) = next_fault w"
  by (simp add: next_fault_def)

lemma the_store_put:
  "the_store w = Some s \<Longrightarrow> single_store w \<Longrightarrow>
   the_store (put (handle w) s' (logged t c cx w)) = Some s'"
  by (auto simp: the_store_def handle_def single_store_def split: option.splits)

lemma single_store_put:
  "the_store w = Some s \<Longrightarrow> single_store w \<Longrightarrow>
   single_store (put (handle w) s' (logged t c cx w))"
  by (auto simp: the_store_def handle_def single_store_def split: option.splits)

lemma SetNX_present:
  "s k = Some e \<Longrightarrow>
   SetNX f k v d s = ((False, if f = NoFault then None else Some StoreError), s)"
  by (cases f) (simp_all add: SetNX_def)

lemma SetNX_absent:
  "s k = None \<Longrightarrow>
   SetNX f k v d s =
     ((f = NoFault, if f = NoFault then None else Some StoreError),
      if f = RequestLost then s else s(k \<mapsto> \<lparr>holder = v, ttl = d\<rparr>))"
  by (cases f) (simp_all add: SetNX_def)


lemma Del_absent:
  "s k = None \<Longrightarrow> Del f k s = ((0, if f = NoFault then None else Some StoreError), s)"
  by (cases f) (simp_all add: Del_def fun_upd_idem)

lemma Del_present:
  "s k = Some e \<Longrightarrow>
   Del f k s =
     ((if f = NoFault then 1 else 0, if f = NoFault then None else Some StoreError),
      if f = RequestLost then s else s(k := None))"
  by (cases f) (simp_all add: Del_def)

lemma put_same:
  assumes "the_store w = Some s"
  shows "lockDriver (put (handle w) s (logged t c cx w)) = lockDriver w"
proof (cases "client (lockDriver w)")
  case None
  with assms have "clusterClient (lockDriver w) = Some s"
    by (simp add: the_store_def)
  with None show ?thesis by (simp add: handle_def put_def)
next
  case (Some s')
  with assms have "s' = s" by (simp add: the_store_def)
  with Some show ?thesis by (simp add: handle_def put_def)
qed


subsection \<open>The two operations on a process with one store\<close>

lemma TryLock_single:
  assumes "single_store w" "the_store w = Some s"
  shows "TryLock w cx k =
    (let r = SetNX (next_fault w) k (lockerValue w) lockTTL s;
         w2 = put (handle w) (snd r)
                (logged (handle w) (SETNX k (lockerValue w) lockTTL) (bounded w cx) w)
     in if snd (fst r) \<noteq> None then (False, w2)
        else if fst (fst r) then (True, spawn_renewal k w2)
        else (False, w2))"
proof (cases "client (lockDriver w)")
  case None
  with assms have c: "clusterClient (lockDriver w) = Some s"
    by (simp add: the_store_def)
  show ?thesis
    by (simp add: TryLock_def None c issue_eq split_beta Let_def handle_def)
next
  case (Some s')
  with assms have c: "clusterClient (lockDriver w) = None" "s' = s"
    by (simp_all add: the_store_def single_store_def)
  show ?thesis
    by (simp add: TryLock_def Some c issue_eq split_beta Let_def handle_def)
qed

lemma Unlock_configured:
  assumes "the_store w = Some s"
  shows "Unlock w cx k =
    (let r = Del (next_fault w) k s
     in (fst (fst r) > 0 \<and> snd (fst r) = None,
         put (handle w) (snd r) (logged (handle w) (DEL k) (bounded w cx) w)))"
  using assms
  by (auto simp: Unlock_def issue_eq split_beta Let_def the_store_def handle_def
           split: option.splits)

lemma TryLock_true_configured:
  "TryLock w cx k = (True, w1) \<Longrightarrow> \<exists>s. the_store w = Some s"
  by (auto simp: TryLock_def the_store_def split: option.splits if_splits)

lemma TryLock_true_after:
  assumes "single_store w" "TryLock w cx k = (True, w1)"
  shows "single_store w1 \<and> (\<exists>s e. the_store w1 = Some s \<and> s k = Some e)
         \<and> faults w1 = tl (faults w)"
proof -
  from assms obtain s where s: "the_store w = Some s"
    using TryLock_true_configured by blast
  define r where "r = SetNX (next_fault w) k (lockerValue w) lockTTL s"
  define w2 where
    "w2 = put (handle w) (snd r)
            (logged (handle w) (SETNX k (lockerValue w) lockTTL) (bounded w cx) w)"
  from assms(2) have ok: "snd (fst r) = None" "fst (fst r)" and w1: "w1 = spawn_renewal k w2"
    unfolding TryLock_single[OF assms(1) s] r_def[symmetric] Let_def w2_def[symmetric]
    by (simp_all split: if_splits)
  have "\<exists>e. snd r k = Some e"
    using ok unfolding r_def by (cases "next_fault w"; cases "s k") (simp_all add: SetNX_def)
  moreover have "the_store w2 = Some (snd r)" "single_store w2" "faults w2 = tl (faults w)"
    unfolding w2_def using s assms(1) by (simp_all add: the_store_put single_store_put)
  ultimately show ?thesis using w1 by simp
qed


lemma Unlock_never_cleans:
  assumes "the_store w = Some s"
  shows "states (snd (Unlock w cx k)) = states w
       \<and> goroutines (snd (Unlock w cx k)) = goroutines w
       \<and> signalled (snd (Unlock w cx k)) = signalled w"
  by (simp add: Unlock_configured[OF assms] Let_def)

lemma cleanup_removes: "listeners (states (cleanup w k)) k = None"
  by (simp add: cleanup_def split: option.splits)

lemma renewal_tick_single:
  assumes "single_store w" "the_store w = Some s"
  shows "renewal_tick w k =
    (let r = Expire (next_fault w) k lockTTL s
     in (\<not> fst (fst r) \<or> snd (fst r) \<noteq> None,
         put (handle w) (snd r) (logged (handle w) (EXPIRE k lockTTL) Background w)))"
proof (cases "client (lockDriver w)")
  case None
  with assms have c: "clusterClient (lockDriver w) = Some s"
    by (simp add: the_store_def)
  show ?thesis
    by (simp add: renewal_tick_def None c issue_eq split_beta Let_def handle_def)
next
  case (Some s')
  with assms have c: "clusterClient (lockDriver w) = None" "s' = s"
    by (simp_all add: the_store_def single_store_def)
  show ?thesis
    by (simp add: renewal_tick_def Some c issue_eq split_beta Let_def handle_def)
qed


subsection \<open>The renewal loop\<close>

lemma loop_cancel: "CancelChan \<in> set ds \<Longrightarrow> fst (renewal_loop w k ds) = Exited"
proof (induction ds arbitrary: w)
  case Nil
  then show ?case by simp
next
  case (Cons d ds)
  show ?case
  proof (cases d)
    case TickerC
    with Cons show ?thesis by (auto split: prod.splits bool.splits)
  next
    case CancelChan
    then show ?thesis by simp
  qed
qed

lemma loop_exit_stable:
  "fst (renewal_loop w k ds) = Exited \<Longrightarrow> renewal_loop w k (ds @ ds') = renewal_loop w k ds"
proof (induction ds arbitrary: w)
  case Nil
  then show ?case by simp
next
  case (Cons d ds)
  show ?case
  proof (cases d)
    case TickerC
    with Cons show ?thesis by (auto split: prod.splits bool.splits)
  next
    case CancelChan
    then show ?thesis by simp
  qed
qed


subsection \<open>Configuration keeps one store\<close>

lemma boot_inv: "provider_inv boot"
  by (simp add: provider_inv_def boot_def single_store_def the_store_def)

lemma ping_fields [simp]:
  "lockDriver (snd (ping t w)) = lockDriver w" "doOnce (snd (ping t w)) = doOnce w"
  by (simp_all add: ping_def Let_def)

lemma provider_single_store:
  assumes "provider_inv w"
  shows "provider_inv (world_of (SetRedisProviderStandalone opt w))
       \<and> provider_inv (world_of (SetRedisProviderCluster opt w))
       \<and> provider_inv (world_of (SetRedisProviderFailOver opt w))"
proof (cases "doOnce w")
  case True
  with assms show ?thesis
    by (simp add: SetRedisProviderStandalone_def SetRedisProviderCluster_def
          SetRedisProviderFailOver_def Do_def)
next
  case False
  with assms have n: "client (lockDriver w) = None" "clusterClient (lockDriver w) = None"
    by (auto simp: provider_inv_def the_store_def split: option.splits)
  show ?thesis
    using False n
    by (simp add: SetRedisProviderStandalone_def SetRedisProviderCluster_def
          SetRedisProviderFailOver_def Do_def initClient_def initClusterClient_def
          initFailOverClient_def split_beta provider_inv_def single_store_def the_store_def)
qed

lemma spawn_doOnce [simp]: "doOnce (spawn_renewal k w) = doOnce w"
  by (simp add: spawn_renewal_def register_def Let_def)

lemma operations_keep_provider:
  assumes "provider_inv w"
  shows "provider_inv (snd (TryLock w cx k))
       \<and> provider_inv (snd (Unlock w cx k))
       \<and> provider_inv (snd (renewal_tick w k))"
proof (cases "the_store w")
  case None
  then have n: "client (lockDriver w) = None" "clusterClient (lockDriver w) = None"
    by (auto simp: the_store_def split: option.splits)
  with assms show ?thesis
    by (simp add: TryLock_def Unlock_def renewal_tick_def Let_def)
next
  case (Some s)
  from assms have one: "single_store w" and d: "doOnce w"
    using Some by (simp_all add: provider_inv_def)
  have "provider_inv (put (handle w) s' (logged t c cx' w))" for s' t c cx'
    using single_store_put[OF Some one] d by (simp add: provider_inv_def)
  then show ?thesis
    by (simp add: TryLock_single[OF one Some] Unlock_configured[OF Some]
          renewal_tick_single[OF one Some] Let_def provider_inv_def)
qed


subsection \<open>The calls each operation logs\<close>

lemma bounded_eq:
  "bounded w cx = Some (case cx of Some d \<Rightarrow> d | None \<Rightarrow> now w + redisExecuteTimeout)"
  by (cases cx) (simp_all add: bounded_def WithTimeout_def)

lemma TryLock_calls:
  "calls (snd (TryLock w cx k)) =
     calls w
     @ (case client (lockDriver w) of None \<Rightarrow> []
        | Some _ \<Rightarrow> [\<lparr>via = Standalone, cmd = SETNX k (lockerValue w) lockTTL, deadline = bounded w cx\<rparr>])
     @ (case clusterClient (lockDriver w) of None \<Rightarrow> []
        | Some _ \<Rightarrow> [\<lparr>via = Cluster, cmd = SETNX k (lockerValue w) lockTTL, deadline = bounded w cx\<rparr>])"
proof (cases "client (lockDriver w)"; cases "clusterClient (lockDriver w)")
  fix a assume "client (lockDriver w) = Some a" "clusterClient (lockDriver w) = None"
  then show ?thesis
    by (simp add: TryLock_def issue_eq split_beta Let_def lockerValue_def)
next
  fix a assume "client (lockDriver w) = None" "clusterClient (lockDriver w) = Some a"
  then show ?thesis
    by (simp add: TryLock_def issue_eq split_beta Let_def lockerValue_def)
next
  fix a b assume "client (lockDriver w) = Some a" "clusterClient (lockDriver w) = Some b"
  then show ?thesis
    by (simp add: TryLock_def issue_eq split_beta Let_def lockerValue_def)
qed (simp add: TryLock_def)

lemma Unlock_calls:
  "calls (snd (Unlock w cx k)) =
     calls w
     @ (case client (lockDriver w) of
          Some _ \<Rightarrow> [\<lparr>via = Standalone, cmd = DEL k, deadline = bounded w cx\<rparr>]
        | None \<Rightarrow> (case clusterClient (lockDriver w) of None \<Rightarrow> []
             | Some _ \<Rightarrow> [\<lparr>via = Cluster, cmd = DEL k, deadline = bounded w cx\<rparr>]))"
  by (simp add: Unlock_def issue_eq split_beta Let_def split: option.splits)

lemma tick_calls:
  "\<exists>cs. calls (snd (renewal_tick w k)) = calls w @ cs \<and> (\<forall>c\<in>set cs. deadline c = None)"
proof (cases "client (lockDriver w)"; cases "clusterClient (lockDriver w)")
  fix a assume "client (lockDriver w) = Some a" "clusterClient (lockDriver w) = None"
  then show ?thesis
    by (simp add: renewal_tick_def issue_eq split_beta Let_def Background_def)
next
  fix a assume "client (lockDriver w) = None" "clusterClient (lockDriver w) = Some a"
  then show ?thesis
    by (simp add: renewal_tick_def issue_eq split_beta Let_def Background_def)
next
  fix a b assume "client (lockDriver w) = Some a" "clusterClient (lockDriver w) = Some b"
  then show ?thesis
    by (simp add: renewal_tick_def issue_eq split_beta Let_def Background_def)
qed (simp add: renewal_tick_def Let_def)


subsection \<open>Stores that agree on their keys\<close>

lemma Expire_res:
  "fst (Expire f k d s) =
     (f = NoFault \<and> s k \<noteq> None, if f = NoFault then None else Some StoreError)"
  by (cases f) (simp_all add: Expire_def)

lemma Expire_dom: "dom (snd (Expire f k d s)) = dom s"
  by (cases f; cases "s k") (auto simp: Expire_def)

lemma Del_res:
  "fst (Del f k s) =
     (if f = NoFault \<and> s k \<noteq> None then 1 else 0,
      if f = NoFault then None else Some StoreError)"
  by (cases f) (simp_all add: Del_def)

lemma Del_dom: "dom (snd (Del f k s)) = (if f = RequestLost then dom s else dom s - {k})"
  by (cases f) (auto simp: Del_def)

lemma same_keys_Some: "same_keys (Some s) b = (\<exists>t. b = Some t \<and> dom s = dom t)"
  by (cases b) (simp_all add: same_keys_def)

lemma same_keys_None: "same_keys None b = (b = None)"
  by (simp add: same_keys_def)

lemma dom_eq_at: "dom s = dom t \<Longrightarrow> (s k = None) = (t k = None)"
  by (metis domIff)

lemma next_fault_eq: "faults w = faults w' \<Longrightarrow> next_fault w = next_fault w'"
  by (simp add: next_fault_def)

lemma Unlock_same:
  assumes "same_keys (client (lockDriver w)) (client (lockDriver w'))"
      and "same_keys (clusterClient (lockDriver w)) (clusterClient (lockDriver w'))"
      and "faults w = faults w'"
  shows "fst (Unlock w cx k) = fst (Unlock w' cx' k)
       \<and> same_keys (client (lockDriver (snd (Unlock w cx k)))) (client (lockDriver (snd (Unlock w' cx' k))))
       \<and> same_keys (clusterClient (lockDriver (snd (Unlock w cx k)))) (clusterClient (lockDriver (snd (Unlock w' cx' k))))
       \<and> faults (snd (Unlock w cx k)) = faults (snd (Unlock w' cx' k))"
proof (cases "client (lockDriver w)")
  case (Some s)
  with assms(1) obtain t where t: "client (lockDriver w') = Some t" "dom s = dom t"
    by (auto simp: same_keys_Some)
  show ?thesis
    using assms(2,3) dom_eq_at[OF t(2), of k]
    by (simp add: Unlock_def Some t issue_eq split_beta Let_def Del_res Del_dom
          same_keys_Some next_fault_eq[OF assms(3)])
next
  case None
  with assms(1) have n': "client (lockDriver w') = None" by (simp add: same_keys_None)
  show ?thesis
  proof (cases "clusterClient (lockDriver w)")
    case None2: None
    with assms(2) have "clusterClient (lockDriver w') = None" by (simp add: same_keys_None)
    with None None2 n' assms(3) show ?thesis by (simp add: Unlock_def same_keys_None)
  next
    case (Some s)
    with assms(2) obtain t where t: "clusterClient (lockDriver w') = Some t" "dom s = dom t"
      by (auto simp: same_keys_Some)
    show ?thesis
      using assms(3) dom_eq_at[OF t(2), of k]
      by (simp add: Unlock_def None n' Some t issue_eq split_beta Let_def Del_res Del_dom
            same_keys_Some same_keys_None next_fault_eq[OF assms(3)])
  qed
qed

lemma tick_same:
  assumes "same_keys (client (lockDriver w)) (client (lockDriver w'))"
      and "same_keys (clusterClient (lockDriver w)) (clusterClient (lockDriver w'))"
      and "faults w = faults w'"
  shows "fst (renewal_tick w k) = fst (renewal_tick w' k)
       \<and> same_keys (client (lockDriver (snd (renewal_tick w k)))) (client (lockDriver (snd (renewal_tick w' k))))
       \<and> same_keys (clusterClient (lockDriver (snd (renewal_tick w k)))) (clusterClient (lockDriver (snd (renewal_tick w' k))))
       \<and> faults (snd (renewal_tick w k)) = faults (snd (renewal_tick w' k))"
proof (cases "client (lockDriver w)"; cases "clusterClient (lockDriver w)")
  assume n: "client (lockDriver w) = None" "clusterClient (lockDriver w) = None"
  with assms(1,2) have "client (lockDriver w') = None" "clusterClient (lockDriver w') = None"
    by (simp_all add: same_keys_None)
  with n assms(3) show ?thesis by (simp add: renewal_tick_def Let_def same_keys_None)
next
  fix s assume n: "client (lockDriver w) = None" "clusterClient (lockDriver w) = Some s"
  with assms(1,2) obtain t where t: "client (lockDriver w') = None"
    "clusterClient (lockDriver w') = Some t" "dom s = dom t"
    by (auto simp: same_keys_None same_keys_Some)
  show ?thesis
    using dom_eq_at[OF t(3), of k]
    by (simp add: renewal_tick_def n t issue_eq split_beta Let_def Expire_res Expire_dom
          same_keys_Some same_keys_None next_fault_eq[OF assms(3)] assms(3))
next
  fix s assume n: "client (lockDriver w) = Some s" "clusterClient (lockDriver w) = None"
  with assms(1,2) obtain t where t: "client (lockDriver w') = Some t"
    "clusterClient (lockDriver w') = None" "dom s = dom t"
    by (auto simp: same_keys_None same_keys_Some)
  show ?thesis
    using dom_eq_at[OF t(3), of k]
    by (simp add: renewal_tick_def n t issue_eq split_beta Let_def Expire_res Expire_dom
          same_keys_Some same_keys_None next_fault_eq[OF assms(3)] assms(3))
next
  fix s u assume n: "client (lockDriver w) = Some s" "clusterClient (lockDriver w) = Some u"
  with assms(1,2) obtain t v where t: "client (lockDriver w') = Some t" "dom s = dom t"
    "clusterClient (lockDriver w') = Some v" "dom u = dom v"
    by (auto simp: same_keys_Some)
  have nf: "next_fault (logged a b c w) = next_fault (logged a' b' c' w')" for a b c a' b' c'
    by (simp add: next_fault_def assms(3))
  show ?thesis
    using dom_eq_at[OF t(2), of k] dom_eq_at[OF t(4), of k]
    by (simp add: renewal_tick_def n t issue_eq split_beta Let_def Expire_res Expire_dom
          same_keys_Some next_fault_eq[OF assms(3)] assms(3) nf next_fault_def[of "put _ _ _"])
qed


subsection \<open>A healthy lease keeps the loop running\<close>

text \<open>
  As long as the record exists and every refresh goes through, no number of ticks makes
  the loop leave: it ends only on the signal or on a failed refresh.
\<close>

lemma renewal_loop_healthy:
  assumes "single_store w" "the_store w = Some s" "s k \<noteq> None" "faults w = []"
  shows "fst (renewal_loop w k (replicate n TickerC)) = Blocked"
  using assms
proof (induction n arbitrary: w s)
  case 0
  then show ?case by simp
next
  case (Suc n)
  define r where "r = Expire NoFault k lockTTL s"
  define w' where
    "w' = put (handle w) (snd r) (logged (handle w) (EXPIRE k lockTTL) Background w)"
  have nf: "next_fault w = NoFault" using Suc.prems(4) by (simp add: next_fault_def)
  have t: "renewal_tick w k = (False, w')"
    using Suc.prems(3)
    by (simp add: renewal_tick_single[OF Suc.prems(1,2)] nf Let_def w'_def r_def Expire_res)
  have a: "single_store w'" "the_store w' = Some (snd r)" "faults w' = []"
    unfolding w'_def using Suc.prems
    by (simp_all add: single_store_put the_store_put)
  have b: "snd r k \<noteq> None"
    using Suc.prems(3) Expire_dom[of NoFault k lockTTL s] unfolding r_def by (metis domIff)
  have "fst (renewal_loop w' k (replicate n TickerC)) = Blocked"
    by (rule Suc.IH[OF a(1,2) b a(3)])
  with t show ?case by simp
qed


subsection \<open>The sample process\<close>

lemma standalone_eq:
  "standalone =
     boot\<lparr>lockDriver := \<lparr>client = Some Map.empty, clusterClient = None\<rparr>, doOnce := True,
          calls := [\<lparr>via = Standalone, cmd = PING, deadline = Some 3000000000\<rparr>]\<rparr>"
  by (simp add: standalone_def boot_def SetRedisProviderStandalone_def Do_def initClient_def
        ping_def Ping_def logged_def next_fault_def WithTimeout_def Background_def
        pingTimeout_def Second_def)

lemma standalone_facts:
  "single_store standalone" "the_store standalone = Some Map.empty"
  "faults standalone = []" "next_fault standalone = NoFault"
  by (simp_all add: standalone_eq boot_def single_store_def the_store_def next_fault_def)

lemma acquire_job: "TryLock standalone None ''job'' = (True, held)"
proof -
  have "fst (TryLock standalone None ''job'') = True"
    by (simp add: TryLock_single[OF standalone_facts(1,2)] standalone_facts SetNX_absent Let_def)
  then show ?thesis by (simp add: held_def prod_eq_iff)
qed

lemma held_eq:
  "held =
     standalone
       \<lparr>lockDriver :=
          \<lparr>client = Some (Map.empty(''job'' \<mapsto>
               \<lparr>holder = ''lockedAt:2024-01-01T00:00:00Z@node1(10.0.0.1)'', ttl = 10000000000\<rparr>)),
           clusterClient = None\<rparr>,
        states := \<lparr>listeners = Map.empty(''job'' \<mapsto> 0)\<rparr>,
        goroutines := [Renewal ''job'' 0], chans := 1,
        calls :=
          [\<lparr>via = Standalone, cmd = PING, deadline = Some 3000000000\<rparr>,
           \<lparr>via = Standalone,
            cmd = SETNX ''job'' ''lockedAt:2024-01-01T00:00:00Z@node1(10.0.0.1)'' 10000000000,
            deadline = Some 3000000000\<rparr>]\<rparr>"
  by (simp add: held_def standalone_eq boot_def TryLock_def issue_def put_def logged_def
        next_fault_def SetNX_def bounded_def WithTimeout_def Background_def register_def
        spawn_renewal_def lockerValue_def Let_def lockTTL_def redisExecuteTimeout_def Second_def)

lemma held_facts:
  "single_store held" "faults held = []" "next_fault held = NoFault"
  "the_store held =
     Some (Map.empty(''job'' \<mapsto>
       \<lparr>holder = ''lockedAt:2024-01-01T00:00:00Z@node1(10.0.0.1)'', ttl = 10000000000\<rparr>))"
  by (simp_all add: held_eq standalone_eq boot_def single_store_def the_store_def next_fault_def)


lemma held_handle: "handle held = Standalone"
  by (simp add: handle_def held_eq standalone_eq boot_def)

lemma released_eq:
  "released = put Standalone Map.empty (logged Standalone (DEL ''job'') (bounded held None) held)"
  by (simp add: released_def Unlock_configured[OF held_facts(4)] held_facts(3) Del_present
        Let_def held_handle)

lemma released_facts:
  "single_store released" "the_store released = Some Map.empty" "next_fault released = NoFault"
  "listeners (states released) ''job'' = Some 0" "goroutines released = [Renewal ''job'' 0]"
  "signalled released = []"
  by (simp_all add: released_eq single_store_def the_store_def next_fault_def)
     (simp_all add: held_eq standalone_eq boot_def)


lemma foreign_facts:
  "client (lockDriver foreign) =
     Some (Map.empty(''job'' \<mapsto> \<lparr>holder = ''lockedAt:2023-12-31T23:59:59Z@node2(10.0.0.2)'', ttl = lockTTL\<rparr>))"
  "clusterClient (lockDriver foreign) = None" "faults foreign = []"
  "listeners (states foreign) = Map.empty"
  by (simp_all add: foreign_def) (simp_all add: standalone_eq boot_def)

lemma held_driver:
  "client (lockDriver held) = the_store held" "clusterClient (lockDriver held) = None"
  by (simp_all add: held_eq standalone_eq boot_def the_store_def)


section \<open>Properties of the lock lifecycle\<close>

text \<open>
  C6. When neither the standalone/failover client nor the cluster client is set,
  \<^verbatim>\<open>TryLock\<close> and \<^verbatim>\<open>Unlock\<close> both return false and leave the whole process state as
  it was; in particular the log of store calls is not extended, so no store was
  contacted.
\<close>

theorem unconfigured_fails_closed:
  assumes "client (lockDriver w) = None" and "clusterClient (lockDriver w) = None"
  shows "TryLock w cx k = (False, w) \<and> Unlock w cx k = (False, w)"
  using assms by (simp add: TryLock_def Unlock_def)

theorem unconfigured_fails_closed_witness:
  "TryLock boot None ''job'' = (False, boot) \<and> Unlock boot None ''job'' = (False, boot)"
  using unconfigured_fails_closed[of boot None "''job''"] by (simp add: boot_def)

text \<open>
  C10. A \<^verbatim>\<open>TryLock\<close> call that returns false, for whatever reason (no store, key already
  present, store error), leaves the registry exactly as it was, starts no goroutine
  and makes no channel.
\<close>

theorem TryLock_false_frame:
  assumes "TryLock w cx k = (False, w')"
  shows "states w' = states w \<and> goroutines w' = goroutines w \<and> chans w' = chans w"
  using assms
  by (auto simp: TryLock_def issue_eq split_beta Let_def split: if_splits option.splits)

theorem TryLock_false_frame_witness:
  "states (snd (TryLock held None ''job'')) = states held
   \<and> goroutines (snd (TryLock held None ''job'')) = goroutines held
   \<and> chans (snd (TryLock held None ''job'')) = chans held"
proof -
  have "fst (TryLock held None ''job'') = False"
    by (simp add: TryLock_single[OF held_facts(1,4)] held_facts(3) SetNX_present Let_def)
  then have "TryLock held None ''job'' = (False, snd (TryLock held None ''job''))"
    by (simp add: prod_eq_iff)
  from TryLock_false_frame[OF this] show ?thesis .
qed

text \<open>
  C2. On a process with one store: while the store holds a record for the key,
  \<^verbatim>\<open>TryLock\<close> returns false and leaves the store as it was (the record is not
  replaced), whichever process asks and whatever happens to the call in transit.
  A \<^verbatim>\<open>TryLock\<close> that returns true found no record and is the call that created it,
  with its own holder marker and the lease duration.
\<close>

theorem TryLock_rejects_held_key:
  assumes "single_store w" and "the_store w = Some s"
  shows "(s k \<noteq> None \<longrightarrow>
            fst (TryLock w cx k) = False \<and> the_store (snd (TryLock w cx k)) = Some s)
       \<and> (fst (TryLock w cx k) \<longrightarrow>
            s k = None
          \<and> the_store (snd (TryLock w cx k)) =
              Some (s(k \<mapsto> \<lparr>holder = lockerValue w, ttl = lockTTL\<rparr>)))"
proof (cases "s k")
  case None
  then show ?thesis
    by (simp add: TryLock_single[OF assms] SetNX_absent Let_def the_store_put[OF assms(2,1)])
next
  case (Some e)
  then show ?thesis
    by (simp add: TryLock_single[OF assms] SetNX_present Let_def the_store_put[OF assms(2,1)])
qed

theorem TryLock_rejects_held_key_witness:
  "fst (TryLock held None ''job'') = False
   \<and> the_store (snd (TryLock held None ''job'')) = the_store held
   \<and> fst (TryLock standalone None ''job'')
   \<and> the_store (snd (TryLock standalone None ''job'')) =
       Some (Map.empty(''job'' \<mapsto> \<lparr>holder = lockerValue standalone, ttl = lockTTL\<rparr>))"
  using TryLock_rejects_held_key[OF held_facts(1,4), where k = "''job''" and cx = None]
        TryLock_rejects_held_key[OF standalone_facts(1,2), where k = "''job''" and cx = None]
  by (simp add: held_facts(4) acquire_job)

text \<open>
  C5. On a process with a store, \<^verbatim>\<open>Unlock\<close> returns true exactly when the delete it
  issued reports a count of at least one and no error. When the store holds no record
  for the key, \<^verbatim>\<open>Unlock\<close> returns false and the store, the registry, the goroutines
  and the channels are all as before.
\<close>

theorem Unlock_absent_key:
  assumes "the_store w = Some s"
  shows "fst (Unlock w cx k) =
           (fst (fst (Del (next_fault w) k s)) \<ge> 1 \<and> snd (fst (Del (next_fault w) k s)) = None)
       \<and> (s k = None \<longrightarrow>
            fst (Unlock w cx k) = False
          \<and> lockDriver (snd (Unlock w cx k)) = lockDriver w
          \<and> states (snd (Unlock w cx k)) = states w
          \<and> goroutines (snd (Unlock w cx k)) = goroutines w
          \<and> signalled (snd (Unlock w cx k)) = signalled w)"
proof -
  have a: "fst (Unlock w cx k) =
           (fst (fst (Del (next_fault w) k s)) \<ge> 1 \<and> snd (fst (Del (next_fault w) k s)) = None)"
    by (auto simp add: Unlock_configured[OF assms] Let_def)
  show ?thesis
    using a by (simp add: Unlock_configured[OF assms] Let_def Del_absent put_same[OF assms])
qed

theorem Unlock_absent_key_witness:
  "fst (Unlock standalone None ''job'') = False
   \<and> lockDriver (snd (Unlock standalone None ''job'')) = lockDriver standalone
   \<and> states (snd (Unlock standalone None ''job'')) = states standalone
   \<and> fst (Unlock held None ''job'') = True"
  using Unlock_absent_key[OF standalone_facts(2), where k = "''job''" and cx = None]
        Unlock_absent_key[OF held_facts(4), where k = "''job''" and cx = None]
  by (simp add: held_facts(3) standalone_facts(4) Del_present Del_absent)

text \<open>
  C3. Round trip on a process with one store: if \<^verbatim>\<open>TryLock\<close> on a key returned true
  and the next two store calls go through, then \<^verbatim>\<open>Unlock\<close> on the key returns true and
  a second \<^verbatim>\<open>TryLock\<close> on it returns true again.
\<close>

theorem lock_unlock_lock_round_trip:
  assumes "single_store w" and "TryLock w cx k = (True, w1)"
    and "set (take 2 (faults w1)) \<subseteq> {NoFault}"
  shows "fst (Unlock w1 cx' k) = True
       \<and> fst (TryLock (snd (Unlock w1 cx' k)) cx'' k) = True"
proof -
  from TryLock_true_after[OF assms(1,2)] obtain s e where
    w1: "single_store w1" "the_store w1 = Some s" "s k = Some e" by blast
  have f1: "next_fault w1 = NoFault"
    using assms(3) by (cases "faults w1") (auto simp: next_fault_def)
  define w2 where "w2 = snd (Unlock w1 cx' k)"
  have u: "fst (Unlock w1 cx' k) = True" "the_store w2 = Some (s(k := None))"
    "single_store w2" "faults w2 = tl (faults w1)"
    unfolding w2_def using w1 f1
    by (simp_all add: Unlock_configured Del_present Let_def the_store_put single_store_put)
  have f2: "next_fault w2 = NoFault"
    using assms(3) u(4)
    by (cases "faults w1"; cases "tl (faults w1)") (auto simp: next_fault_def)
  have "fst (TryLock w2 cx'' k) = True"
    using u f2 by (simp add: TryLock_single[OF u(3) u(2)] SetNX_absent Let_def)
  with u show ?thesis by (simp add: w2_def)
qed

theorem lock_unlock_lock_round_trip_witness:
  "fst (Unlock held None ''job'') = True
   \<and> fst (TryLock (snd (Unlock held None ''job'')) None ''job'') = True"
proof -
  have "set (take 2 (faults held)) \<subseteq> {NoFault}" by (simp add: held_facts)
  from lock_unlock_lock_round_trip[OF standalone_facts(1) acquire_job this] show ?thesis .
qed

text \<open>
  C4. The renewal loop leaves on the cancellation signal at once, without a store call.
  A pass of the ticker case that ends in \<^verbatim>\<open>break LOOP\<close> is the last thing the loop
  does; on a process with one store that is exactly a pass whose single refresh
  returned false or an error. Whenever the signal is among the deliveries the loop has
  left, and once it has left, later deliveries change nothing (no further refresh).
\<close>

theorem renewal_loop_exits:
  "renewal_loop w k (CancelChan # ds) = (Exited, w)
   \<and> (fst (renewal_tick w k) \<longrightarrow>
        renewal_loop w k (TickerC # ds) = (Exited, snd (renewal_tick w k)))
   \<and> (single_store w \<and> the_store w = Some s \<longrightarrow>
        fst (renewal_tick w k) =
          (\<not> fst (fst (Expire (next_fault w) k lockTTL s))
           \<or> snd (fst (Expire (next_fault w) k lockTTL s)) \<noteq> None)
      \<and> length (calls (snd (renewal_tick w k))) = Suc (length (calls w)))
   \<and> (CancelChan \<in> set ds \<longrightarrow> fst (renewal_loop w k ds) = Exited)
   \<and> (fst (renewal_loop w k ds) = Exited \<longrightarrow>
        renewal_loop w k (ds @ ds') = renewal_loop w k ds)"
  by (auto simp: loop_cancel loop_exit_stable renewal_tick_single Let_def
           split: prod.splits bool.splits)

theorem renewal_loop_exits_witness:
  "renewal_loop held ''job'' (CancelChan # [TickerC]) = (Exited, held)
   \<and> renewal_loop released ''job'' (TickerC # [TickerC, TickerC]) =
       (Exited, snd (renewal_tick released ''job''))
   \<and> length (calls (snd (renewal_tick released ''job''))) = Suc (length (calls released))
   \<and> fst (renewal_loop held ''job'' [TickerC, CancelChan, TickerC]) = Exited"
proof -
  note r = renewal_loop_exits[where w = released and k = "''job''"
             and ds = "[TickerC, TickerC]" and s = Map.empty]
  note h = renewal_loop_exits[where w = held and k = "''job''"]
  have one: "single_store released \<and> the_store released = Some Map.empty"
    by (simp add: released_facts)
  have tick: "fst (renewal_tick released ''job'')"
    "length (calls (snd (renewal_tick released ''job''))) = Suc (length (calls released))"
    using r[THEN conjunct2, THEN conjunct2, THEN conjunct1, rule_format, OF one]
    by (simp_all add: Expire_def released_facts(3))
  have "CancelChan \<in> set [TickerC, CancelChan, TickerC]" by simp
  from h[where ds = "[TickerC, CancelChan, TickerC]",
         THEN conjunct2, THEN conjunct2, THEN conjunct2, THEN conjunct1, rule_format, OF this]
  have late: "fst (renewal_loop held ''job'' [TickerC, CancelChan, TickerC]) = Exited" .
  from h[where ds = "[TickerC]", THEN conjunct1]
       r[THEN conjunct2, THEN conjunct1, rule_format, OF tick(1)] tick(2) late
  show ?thesis by blast
qed

text \<open>
  C9. The lease lasts 10 seconds and the renewal ticker fires every second, both fixed;
  the tick interval is strictly shorter than the lease.
\<close>

theorem lease_constants:
  "lockTTL = 10 * Second \<and> renewalCheckInterval = 1 * Second \<and> Second = 1000000000
   \<and> renewalCheckInterval < lockTTL"
  by (simp add: lockTTL_def renewalCheckInterval_def Second_def)

text \<open>
  C1. The claim asks that \<^verbatim>\<open>Unlock\<close> on a configured process cancels and removes the
  registry entry of the key. The code returns straight after the delete, so the
  goroutine that would do it is never started: after a successful \<^verbatim>\<open>TryLock\<close> and a
  successful \<^verbatim>\<open>Unlock\<close> of \<open>''job''\<close> the registry still maps \<open>''job''\<close> to its channel,
  the only goroutine is the renewal one, and no channel was signalled.
\<close>

theorem Unlock_keeps_registry_entry:
  "fst (Unlock held None ''job'') = True
   \<and> listeners (states (snd (Unlock held None ''job''))) ''job'' = Some 0
   \<and> goroutines (snd (Unlock held None ''job'')) = [Renewal ''job'' 0]
   \<and> signalled (snd (Unlock held None ''job'')) = []"
proof -
  have "fst (Unlock held None ''job'') = True"
    by (simp add: Unlock_configured[OF held_facts(4)] held_facts(3) Del_present Let_def)
  with released_facts(4-6) show ?thesis by (simp add: released_def)
qed

text \<open>
  C7, as the code has it. Every store call issued by \<^verbatim>\<open>TryLock\<close> and by \<^verbatim>\<open>Unlock\<close>
  carries a deadline: the caller's when the context has one, otherwise three seconds
  from now. The refresh calls of the renewal goroutine run on \<^verbatim>\<open>context.Background()\<close>
  and carry no deadline. Each operation only appends to the log of calls.
\<close>

theorem store_calls_deadline:
  "(\<forall>c \<in> set (new_calls w (snd (TryLock w cx k))) \<union> set (new_calls w (snd (Unlock w cx k))).
      deadline c = Some (case cx of Some d \<Rightarrow> d | None \<Rightarrow> now w + redisExecuteTimeout))
   \<and> redisExecuteTimeout = 3 * Second
   \<and> take (length (calls w)) (calls (snd (TryLock w cx k))) = calls w
   \<and> take (length (calls w)) (calls (snd (Unlock w cx k))) = calls w
   \<and> take (length (calls w)) (calls (snd (renewal_tick w k))) = calls w
   \<and> (\<forall>c \<in> set (new_calls w (snd (renewal_tick w k))). deadline c = None)"
proof -
  obtain cs where cs: "calls (snd (renewal_tick w k)) = calls w @ cs" "\<forall>c\<in>set cs. deadline c = None"
    using tick_calls by blast
  show ?thesis
    by (auto simp: new_calls_def TryLock_calls Unlock_calls cs bounded_eq redisExecuteTimeout_def split: option.splits)
qed

theorem store_calls_deadline_witness:
  "deadline (hd (new_calls standalone (snd (TryLock standalone None ''job'')))) = Some 3000000000
   \<and> deadline (hd (new_calls standalone (snd (TryLock standalone (Some 5) ''job'')))) = Some 5
   \<and> deadline (hd (new_calls held (snd (Unlock held None ''job'')))) = Some 3000000000
   \<and> deadline (hd (new_calls held (snd (renewal_tick held ''job'')))) = None"
proof -
  have c: "client (lockDriver standalone) = Some Map.empty" "now standalone = 0"
    "client (lockDriver held) = the_store held" "now held = 0"
    by (simp_all add: held_eq standalone_eq boot_def the_store_def)
  have 1: "hd (new_calls standalone (snd (TryLock standalone cx ''job'')))
           \<in> set (new_calls standalone (snd (TryLock standalone cx ''job'')))
             \<union> set (new_calls standalone (snd (Unlock standalone cx ''job'')))" for cx
    by (simp add: new_calls_def TryLock_calls c)
  have 2: "hd (new_calls held (snd (Unlock held None ''job'')))
           \<in> set (new_calls held (snd (TryLock held None ''job'')))
             \<union> set (new_calls held (snd (Unlock held None ''job'')))"
    by (simp add: new_calls_def Unlock_calls c held_facts(4))
  have 3: "hd (new_calls held (snd (renewal_tick held ''job'')))
           \<in> set (new_calls held (snd (renewal_tick held ''job'')))"
    by (simp add: new_calls_def renewal_tick_single[OF held_facts(1,4)] Let_def)
  from store_calls_deadline[where w = standalone and cx = None and k = "''job''", THEN conjunct1, rule_format, OF 1]
       store_calls_deadline[where w = standalone and cx = "Some 5" and k = "''job''", THEN conjunct1, rule_format, OF 1]
       store_calls_deadline[where w = held and cx = None and k = "''job''", THEN conjunct1, rule_format, OF 2]
       store_calls_deadline[where w = held and k = "''job''", THEN conjunct2, THEN conjunct2, THEN conjunct2,
          THEN conjunct2, THEN conjunct2, rule_format, OF 3]
  show ?thesis by (simp add: c redisExecuteTimeout_def Second_def)
qed

text \<open>
  C7 as claimed fails for the refresh: the call issued by a renewal pass on the sample
  process is an EXPIRE without a deadline.
\<close>

theorem renewal_refresh_unbounded:
  "cmd (last (calls (snd (renewal_tick held ''job'')))) = EXPIRE ''job'' lockTTL
   \<and> deadline (last (calls (snd (renewal_tick held ''job'')))) = None"
  by (simp add: renewal_tick_single[OF held_facts(1,4)] Let_def Background_def)

text \<open>
  C8. Take two process states whose handles agree on which keys exist (the markers and
  expiries stored under them are free to differ) and whose upcoming faults agree. Then
  \<^verbatim>\<open>Unlock\<close> returns the same in both, a renewal pass ends the same way in both, and
  the states after either operation agree again in the same sense. In particular
  \<^verbatim>\<open>Unlock\<close> returns true whenever the store holds a record for the key and the call
  goes through, whoever created the record.
\<close>

theorem holder_marker_irrelevant:
  assumes "same_keys (client (lockDriver w)) (client (lockDriver w'))"
      and "same_keys (clusterClient (lockDriver w)) (clusterClient (lockDriver w'))"
      and "faults w = faults w'"
  shows "fst (Unlock w cx k) = fst (Unlock w' cx' k)
       \<and> fst (renewal_tick w k) = fst (renewal_tick w' k)
       \<and> same_keys (client (lockDriver (snd (Unlock w cx k))))
                   (client (lockDriver (snd (Unlock w' cx' k))))
       \<and> same_keys (clusterClient (lockDriver (snd (Unlock w cx k))))
                   (clusterClient (lockDriver (snd (Unlock w' cx' k))))
       \<and> faults (snd (Unlock w cx k)) = faults (snd (Unlock w' cx' k))
       \<and> same_keys (client (lockDriver (snd (renewal_tick w k))))
                   (client (lockDriver (snd (renewal_tick w' k))))
       \<and> same_keys (clusterClient (lockDriver (snd (renewal_tick w k))))
                   (clusterClient (lockDriver (snd (renewal_tick w' k))))
       \<and> faults (snd (renewal_tick w k)) = faults (snd (renewal_tick w' k))
       \<and> (the_store w = Some s \<and> s k \<noteq> None \<and> next_fault w = NoFault \<longrightarrow>
            fst (Unlock w cx k))"
proof -
  have "fst (Unlock w cx k)" if "the_store w = Some s" "s k \<noteq> None" "next_fault w = NoFault"
    using that by (auto simp: Unlock_configured[OF that(1)] Let_def Del_present)
  with Unlock_same[OF assms, of cx k cx'] tick_same[OF assms, of k] show ?thesis
    by blast
qed

theorem holder_marker_irrelevant_witness:
  "fst (Unlock foreign None ''job'') = fst (Unlock held None ''job'')
   \<and> fst (Unlock foreign None ''job'')
   \<and> fst (renewal_tick foreign ''job'') = fst (renewal_tick held ''job'')"
proof -
  have a: "same_keys (client (lockDriver foreign)) (client (lockDriver held))"
    by (simp add: held_driver held_facts(4) foreign_facts same_keys_def)
  have b: "same_keys (clusterClient (lockDriver foreign)) (clusterClient (lockDriver held))"
    by (simp add: held_driver foreign_facts same_keys_def)
  have c: "faults foreign = faults held"
    by (simp add: held_facts foreign_facts)
  have d: "the_store foreign = Some (the (the_store foreign))
           \<and> the (the_store foreign) ''job'' \<noteq> None \<and> next_fault foreign = NoFault"
    by (simp add: the_store_def next_fault_def foreign_facts)
  note t = holder_marker_irrelevant[OF a b c, where cx = None and cx' = None
             and k = "''job''" and s = "the (the_store foreign)"]
  from t[THEN conjunct1] t[THEN conjunct2, THEN conjunct1]
       t[THEN conjunct2, THEN conjunct2, THEN conjunct2, THEN conjunct2, THEN conjunct2,
         THEN conjunct2, THEN conjunct2, THEN conjunct2, rule_format, OF d]
  show ?thesis by simp
qed

end
